theory Spec2Isabelle
  imports Main
begin

section \<open>Function-boundary repair of \<open>ida_utilities.py\<close>\<close>

text \<open>
  The repair heuristic (\<open>force_function\<close>, \<open>_convert_address_to_function\<close>,
  \<open>_fix_unrecognized_function_insns\<close>) is a client of the disassembler's analysis
  database. The database is not part of the repository, so it is a parameter of the
  embedding: a record of operations over an arbitrary state type \<open>'db\<close>. Calls that only
  read are functions of the state; calls that may change the database return the new state
  next to their result. Addresses are Python integers.
\<close>

subsection \<open>The analysis database as a parameter\<close>

definition BADADDR :: int where
  \<comment> \<open>\<open>idc.BADADDR\<close> of a 64-bit database; no theorem depends on the value.\<close>
  "BADADDR = 0xFFFFFFFFFFFFFFFF"

record 'db engine =
  find_func_end :: "'db \<Rightarrow> int \<Rightarrow> int"
  first_func_chunk :: "'db \<Rightarrow> int \<Rightarrow> int"
  get_func_attr_start :: "'db \<Rightarrow> int \<Rightarrow> int"
  get_func :: "'db \<Rightarrow> int \<Rightarrow> bool"
  Chunks :: "'db \<Rightarrow> int \<Rightarrow> (int \<times> int) list"
  get_item_end :: "'db \<Rightarrow> int \<Rightarrow> int"
  find_func_bounds :: "'db \<Rightarrow> int \<Rightarrow> int \<times> 'db"
  del_items :: "'db \<Rightarrow> int \<Rightarrow> 'db"
  create_insn :: "'db \<Rightarrow> int \<Rightarrow> int \<times> 'db"
  remove_fchunk :: "'db \<Rightarrow> int \<Rightarrow> int \<Rightarrow> bool \<times> 'db"
  add_func :: "'db \<Rightarrow> int \<Rightarrow> bool \<times> 'db"
  del_func :: "'db \<Rightarrow> int \<Rightarrow> bool \<times> 'db"

text \<open>
  \<open>find_func_bounds E d a\<close> is \<open>ida_funcs.find_func_bounds(func_t(a), FIND_FUNC_DEFINE)\<close>
  and yields the \<open>end_ea\<close> it leaves in the \<open>func_t\<close>; \<open>del_items E d a\<close> is
  \<open>ida_bytes.del_items(a, DELIT_EXPAND)\<close>; \<open>get_func_attr_start E d a\<close> is
  \<open>idc.get_func_attr(a, FUNCATTR_START)\<close>; \<open>get_func E d a\<close> is the truth value of
  \<open>idaapi.get_func(a)\<close>. The results of \<open>remove_fchunk\<close>, \<open>add_func\<close> and \<open>del_func\<close>
  are used by the source only through their truth value.
\<close>

subsection \<open>State: the database and the mutating calls issued so far\<close>

datatype call =
    FindFuncBounds int
  | DelItems int
  | CreateInsn int
  | RemoveFchunk int int
  | AddFunc int
  | DelFunc int

record 'db st =
  db :: 'db
  calls :: "call list"

definition call_find_func_bounds :: "'db engine \<Rightarrow> int \<Rightarrow> 'db st \<Rightarrow> int \<times> 'db st" where
  "call_find_func_bounds E a s =
     (case find_func_bounds E (db s) a of
        (r, d) \<Rightarrow> (r, \<lparr>db = d, calls = calls s @ [FindFuncBounds a]\<rparr>))"

definition call_del_items :: "'db engine \<Rightarrow> int \<Rightarrow> 'db st \<Rightarrow> 'db st" where
  "call_del_items E a s = \<lparr>db = del_items E (db s) a, calls = calls s @ [DelItems a]\<rparr>"

definition call_create_insn :: "'db engine \<Rightarrow> int \<Rightarrow> 'db st \<Rightarrow> int \<times> 'db st" where
  "call_create_insn E a s =
     (case create_insn E (db s) a of
        (r, d) \<Rightarrow> (r, \<lparr>db = d, calls = calls s @ [CreateInsn a]\<rparr>))"

definition call_remove_fchunk :: "'db engine \<Rightarrow> int \<Rightarrow> int \<Rightarrow> 'db st \<Rightarrow> bool \<times> 'db st" where
  "call_remove_fchunk E f t s =
     (case remove_fchunk E (db s) f t of
        (r, d) \<Rightarrow> (r, \<lparr>db = d, calls = calls s @ [RemoveFchunk f t]\<rparr>))"

definition call_add_func :: "'db engine \<Rightarrow> int \<Rightarrow> 'db st \<Rightarrow> bool \<times> 'db st" where
  "call_add_func E a s =
     (case add_func E (db s) a of
        (r, d) \<Rightarrow> (r, \<lparr>db = d, calls = calls s @ [AddFunc a]\<rparr>))"

definition call_del_func :: "'db engine \<Rightarrow> int \<Rightarrow> 'db st \<Rightarrow> bool \<times> 'db st" where
  "call_del_func E a s =
     (case del_func E (db s) a of
        (r, d) \<Rightarrow> (r, \<lparr>db = d, calls = calls s @ [DelFunc a]\<rparr>))"

subsection \<open>\<open>_fix_unrecognized_function_insns\<close>\<close>

text \<open>
  The source loop is \<open>while idc.find_func_end(func) == idc.BADADDR\<close> with no counter, so
  the model is a partial function: \<open>None\<close> is a run that never returns.
\<close>

partial_function (option) fix_unrecognized_function_insns ::
  "'db engine \<Rightarrow> int \<Rightarrow> 'db st \<Rightarrow> (bool \<times> 'db st) option"
where
  "fix_unrecognized_function_insns E func s =
     (if find_func_end E (db s) func = BADADDR then
        (case call_find_func_bounds E func s of
           (unrecognized_insn, s1) \<Rightarrow>
             if unrecognized_insn = 0 then Some (False, s1)
             else
               (let unrecognized_insn_end = get_item_end E (db s1) unrecognized_insn;
                    s2 = call_del_items E unrecognized_insn s1
                in case call_create_insn E unrecognized_insn s2 of
                     (r, s3) \<Rightarrow>
                       if r = 0 then Some (False, s3)
                       else fix_unrecognized_function_insns E func s3))
      else Some (True, s))"

declare fix_unrecognized_function_insns.simps [code]


subsection \<open>\<open>_convert_address_to_function\<close>\<close>

text \<open>\<open>for i in range(1024): if not idc.remove_fchunk(func, func): break\<close>; the counter
  is the number of iterations left.\<close>

fun remove_fchunk_loop :: "'db engine \<Rightarrow> int \<Rightarrow> nat \<Rightarrow> 'db st \<Rightarrow> 'db st" where
  "remove_fchunk_loop E func 0 s = s"
| "remove_fchunk_loop E func (Suc n) s =
     (case call_remove_fchunk E func func s of
        (r, s1) \<Rightarrow> if \<not> r then s1 else remove_fchunk_loop E func n s1)"

text \<open>\<open>for start, _ in chunks: ida_funcs.del_func(start)\<close>; the results are dropped.\<close>

fun undo_damage :: "'db engine \<Rightarrow> (int \<times> int) list \<Rightarrow> 'db st \<Rightarrow> 'db st" where
  "undo_damage E [] s = s"
| "undo_damage E ((start, e) # chunks) s =
     undo_damage E chunks (snd (call_del_func E start s))"

text \<open>The last lines before \<open>return False\<close>: \<open>if orig != idc.BADADDR: add_func(orig)\<close>.\<close>

definition restore_original :: "'db engine \<Rightarrow> int \<Rightarrow> 'db st \<Rightarrow> 'db st" where
  "restore_original E orig s =
     (if orig \<noteq> BADADDR then snd (call_add_func E orig s) else s)"

text \<open>
  The body of \<open>_convert_address_to_function\<close> from \<open># Now try making a function\<close> to the
  end. Every branch that falls out of the nested conditionals reaches the final restore
  and \<open>return False\<close>; the branches after a successful \<open>del_func(orig)\<close> pass through the
  undo loop first.
\<close>

definition try_make_function ::
  "'db engine \<Rightarrow> int \<Rightarrow> int \<Rightarrow> 'db st \<Rightarrow> bool \<times> 'db st"
where
  "try_make_function E func orig s1 =
     (case call_add_func E func s1 of
        (r1, s2) \<Rightarrow>
          if r1 then (True, s2)
          else if orig \<noteq> BADADDR then
            (let chunks = Chunks E (db s2) orig
             in case call_del_func E orig s2 of
                  (r2, s3) \<Rightarrow>
                    if r2 then
                      (case call_add_func E func s3 of
                         (r3, s4) \<Rightarrow>
                           if r3 then
                             (case call_add_func E orig s4 of
                                (r4, s5) \<Rightarrow>
                                  if r4 then
                                    if list_all (\<lambda>(start, end). get_func E (db s5) start) chunks
                                    then (True, s5)
                                    else (False, restore_original E orig (undo_damage E chunks s5))
                                  else (False, restore_original E orig (undo_damage E chunks s5)))
                           else (False, restore_original E orig (undo_damage E chunks s4)))
                    else (False, restore_original E orig s3))
          else (False, restore_original E orig s2))"

text \<open>
  The first half of \<open>_convert_address_to_function\<close>: the repair attempted before the
  creation. The result of \<open>_fix_unrecognized_function_insns\<close> is not used by the source.
\<close>

definition prepare :: "'db engine \<Rightarrow> int \<Rightarrow> 'db st \<Rightarrow> 'db st option" where
  "prepare E func s =
     (if find_func_end E (db s) func = BADADDR
      then map_option snd (fix_unrecognized_function_insns E func s)
      else Some (remove_fchunk_loop E func 1024 s))"

definition convert_address_to_function ::
  "'db engine \<Rightarrow> int \<Rightarrow> 'db st \<Rightarrow> (bool \<times> 'db st) option"
where
  "convert_address_to_function E func s =
     (let orig = first_func_chunk E (db s) func
      in map_option (try_make_function E func orig) (prepare E func s))"

subsection \<open>\<open>is_function_start\<close> and \<open>force_function\<close>\<close>

definition is_function_start :: "'db engine \<Rightarrow> 'db \<Rightarrow> int \<Rightarrow> bool" where
  "is_function_start E d ea = (get_func_attr_start E d ea = ea)"

definition force_function :: "'db engine \<Rightarrow> int \<Rightarrow> 'db st \<Rightarrow> (bool \<times> 'db st) option" where
  "force_function E addr s =
     (if is_function_start E (db s) addr then Some (True, s)
      else convert_address_to_function E addr s)"

subsection \<open>The outcome in the words of the specification\<close>


subsection \<open>Test doubles for the analysis database\<close>

text \<open>
  A small database of functions with chunk lists, used to run the repair on concrete
  inputs. A function is its entry address and its chunks, the entry chunk first; the owner
  of an address is the first function with a chunk that contains it (a tail chunk may be
  listed by several functions). \<open>creatable\<close> gives the addresses at which \<open>add_func\<close>
  can succeed and the end of the function it creates there; \<open>unrecognized\<close> gives, for a
  function address, the items still blocking its end (\<open>0\<close> for an item that
  \<open>find_func_bounds\<close> cannot name); \<open>create_insn\<close> fails at the \<open>stubborn\<close> addresses.
\<close>

record mockdb =
  funcs :: "(int \<times> (int \<times> int) list) list"
  creatable :: "(int \<times> int) list"
  unrecognized :: "(int \<times> int list) list"
  stubborn :: "int list"

definition in_chunks :: "int \<Rightarrow> (int \<times> int) list \<Rightarrow> bool" where
  "in_chunks a cs = list_ex (\<lambda>(lo, hi). lo \<le> a \<and> a < hi) cs"

definition owner :: "mockdb \<Rightarrow> int \<Rightarrow> (int \<times> (int \<times> int) list) option" where
  "owner d a = find (\<lambda>(e, cs). in_chunks a cs) (funcs d)"

definition mock_entry :: "mockdb \<Rightarrow> int \<Rightarrow> int" where
  "mock_entry d a = (case owner d a of None \<Rightarrow> BADADDR | Some (e, cs) \<Rightarrow> e)"

definition mock_chunks :: "mockdb \<Rightarrow> int \<Rightarrow> (int \<times> int) list" where
  "mock_chunks d a = (case owner d a of None \<Rightarrow> [] | Some (e, cs) \<Rightarrow> cs)"

definition mock_find_func_end :: "mockdb \<Rightarrow> int \<Rightarrow> int" where
  "mock_find_func_end d a =
     (case map_of (unrecognized d) a of Some (x # xs) \<Rightarrow> BADADDR | _ \<Rightarrow> a + 4)"

definition mock_find_func_bounds :: "mockdb \<Rightarrow> int \<Rightarrow> int \<times> mockdb" where
  "mock_find_func_bounds d a =
     (case map_of (unrecognized d) a of Some (x # xs) \<Rightarrow> (x, d) | _ \<Rightarrow> (a + 4, d))"

definition mock_create_insn :: "mockdb \<Rightarrow> int \<Rightarrow> int \<times> mockdb" where
  "mock_create_insn d x =
     (if x \<in> set (stubborn d) then (0, d)
      else (4, d\<lparr>unrecognized := map (\<lambda>(f, xs). (f, removeAll x xs)) (unrecognized d)\<rparr>))"

definition mock_remove_fchunk :: "mockdb \<Rightarrow> int \<Rightarrow> int \<Rightarrow> bool \<times> mockdb" where
  "mock_remove_fchunk d f t =
     (case owner d f of
        None \<Rightarrow> (False, d)
      | Some (e, cs) \<Rightarrow>
          (case cs of
             [] \<Rightarrow> (False, d)
           | m # tails \<Rightarrow>
               if in_chunks t tails
               then (True, d\<lparr>funcs :=
                       map (\<lambda>(e', cs'). if e' = e
                              then (e', m # filter (\<lambda>(lo, hi). \<not> (lo \<le> t \<and> t < hi)) tails)
                              else (e', cs'))
                           (funcs d)\<rparr>)
               else (False, d)))"

definition mock_add_func :: "mockdb \<Rightarrow> int \<Rightarrow> bool \<times> mockdb" where
  "mock_add_func d a =
     (case owner d a of
        Some f \<Rightarrow> (False, d)
      | None \<Rightarrow>
          (case map_of (creatable d) a of
             None \<Rightarrow> (False, d)
           | Some e \<Rightarrow>
               if a < e then (True, d\<lparr>funcs := funcs d @ [(a, [(a, e)])]\<rparr>)
               else (False, d)))"

definition mock_del_func :: "mockdb \<Rightarrow> int \<Rightarrow> bool \<times> mockdb" where
  "mock_del_func d a =
     (case owner d a of
        None \<Rightarrow> (False, d)
      | Some (e, cs) \<Rightarrow> (True, d\<lparr>funcs := filter (\<lambda>(e', cs'). e' \<noteq> e) (funcs d)\<rparr>))"

definition mock :: "mockdb engine" where
  "mock =
     \<lparr>find_func_end = mock_find_func_end,
      first_func_chunk = mock_entry,
      get_func_attr_start = mock_entry,
      get_func = (\<lambda>d a. owner d a \<noteq> None),
      Chunks = mock_chunks,
      get_item_end = (\<lambda>d a. a + 4),
      find_func_bounds = mock_find_func_bounds,
      del_items = (\<lambda>d a. d),
      create_insn = mock_create_insn,
      remove_fchunk = mock_remove_fchunk,
      add_func = mock_add_func,
      del_func = mock_del_func\<rparr>"

text \<open>
  An engine that never resolves the function end: \<open>find_func_end\<close> always reports
  \<open>BADADDR\<close>, \<open>find_func_bounds\<close> always names the item at \<open>32\<close>, and undefining and
  \<open>create_insn\<close> always succeed. No address is in a function.
\<close>

definition never_resolving :: "unit engine" where
  "never_resolving =
     \<lparr>find_func_end = (\<lambda>d a. BADADDR),
      first_func_chunk = (\<lambda>d a. BADADDR),
      get_func_attr_start = (\<lambda>d a. BADADDR),
      get_func = (\<lambda>d a. False),
      Chunks = (\<lambda>d a. []),
      get_item_end = (\<lambda>d a. a + 4),
      find_func_bounds = (\<lambda>d a. (32, d)),
      del_items = (\<lambda>d a. d),
      create_insn = (\<lambda>d a. (4, d)),
      remove_fchunk = (\<lambda>d f t. (False, d)),
      add_func = (\<lambda>d a. (False, d)),
      del_func = (\<lambda>d a. (False, d))\<rparr>"

text \<open>
  An engine that always reports the chunk as still attached: \<open>remove_fchunk\<close> always
  succeeds. The function end is known, no address is in a function, and no function can
  be created.
\<close>

definition always_attached :: "unit engine" where
  "always_attached =
     \<lparr>find_func_end = (\<lambda>d a. a + 4),
      first_func_chunk = (\<lambda>d a. BADADDR),
      get_func_attr_start = (\<lambda>d a. BADADDR),
      get_func = (\<lambda>d a. False),
      Chunks = (\<lambda>d a. []),
      get_item_end = (\<lambda>d a. a + 4),
      find_func_bounds = (\<lambda>d a. (32, d)),
      del_items = (\<lambda>d a. d),
      create_insn = (\<lambda>d a. (4, d)),
      remove_fchunk = (\<lambda>d f t. (True, d)),
      add_func = (\<lambda>d a. (False, d)),
      del_func = (\<lambda>d a. (False, d))\<rparr>"

text \<open>
  The test database with another \<open>del_func\<close>: the tail chunks of a deleted function are
  attached to the first function that remains (an engine that finds a new owner for a
  chunk on its own). Every function keeps chunks of its own only.
\<close>

fun adopt :: "(int \<times> int) list \<Rightarrow> (int \<times> (int \<times> int) list) list \<Rightarrow>
    (int \<times> (int \<times> int) list) list" where
  "adopt tails [] = []"
| "adopt tails ((e, cs) # fs) = (e, cs @ tails) # fs"

definition adopting_del_func :: "mockdb \<Rightarrow> int \<Rightarrow> bool \<times> mockdb" where
  "adopting_del_func d a =
     (case owner d a of
        None \<Rightarrow> (False, d)
      | Some (e, cs) \<Rightarrow>
          (True, d\<lparr>funcs := adopt (tl cs) (filter (\<lambda>(e', cs'). e' \<noteq> e) (funcs d))\<rparr>))"

definition adopting :: "mockdb engine" where
  "adopting = mock\<lparr>del_func := adopting_del_func\<rparr>"

subsection \<open>Concrete databases\<close>

definition fresh :: "'db \<Rightarrow> 'db st" where
  "fresh d = \<lparr>db = d, calls = []\<rparr>"

text \<open>One function \<open>[16, 32)\<close>; the address \<open>24\<close> lies in the middle of its entry chunk.
  A function can be created at \<open>24\<close> once it is free, none can be created at \<open>16\<close>.\<close>

definition db_mid_chunk :: mockdb where
  "db_mid_chunk =
     \<lparr>funcs = [(16, [(16, 32)])], creatable = [(24, 32)], unrecognized = [], stubborn = []\<rparr>"

text \<open>As before, and the original function can be created again at \<open>16\<close>.\<close>

definition db_repairable :: mockdb where
  "db_repairable =
     \<lparr>funcs = [(16, [(16, 32)])], creatable = [(24, 32), (16, 24)],
      unrecognized = [], stubborn = []\<rparr>"

text \<open>No function; the end of a function at \<open>24\<close> is unknown and \<open>find_func_bounds\<close>
  cannot name the blocking item. A function can be created at \<open>24\<close> all the same.\<close>

definition db_no_boundary :: mockdb where
  "db_no_boundary =
     \<lparr>funcs = [], creatable = [(24, 32)], unrecognized = [(24, [0])], stubborn = []\<rparr>"


text \<open>Two functions with chunks of their own: \<open>[64, 96)\<close>, and \<open>[16, 32)\<close> with the
  tail \<open>[48, 52)\<close>. The address \<open>24\<close> lies in the entry chunk of the second; a function
  can be created at \<open>24\<close> once it is free, none at \<open>16\<close>.\<close>

definition db_two_functions :: mockdb where
  "db_two_functions =
     \<lparr>funcs = [(64, [(64, 96)]), (16, [(16, 32), (48, 52)])],
      creatable = [(24, 32)], unrecognized = [], stubborn = []\<rparr>"

text \<open>The databases that the calls of the engine \<open>mock\<close> lead to from \<open>db_mid_chunk\<close>.\<close>

definition mid_chunk_dbs :: "mockdb \<Rightarrow> bool" where
  "mid_chunk_dbs d \<longleftrightarrow>
     d = db_mid_chunk \<or> d = db_mid_chunk\<lparr>funcs := []\<rparr> \<or>
     d = db_mid_chunk\<lparr>funcs := [(24, [(24, 32)])]\<rparr>"

subsection \<open>Assumptions on the engine\<close>

text \<open>
  The addresses released between two databases: those in some function in the first and in
  none in the second. \<open>chunk_addrs\<close> is the set of addresses of a chunk list.
\<close>

definition released :: "'db engine \<Rightarrow> 'db \<Rightarrow> 'db \<Rightarrow> int set" where
  "released E d d' = {a. get_func E d a \<and> \<not> get_func E d' a}"

definition chunk_addrs :: "(int \<times> int) list \<Rightarrow> int set" where
  "chunk_addrs cs = (\<Union>c \<in> set cs. {fst c ..< snd c})"

text \<open>
  The data model of section 3 as a condition on one database: an address that is in a
  function lies in a chunk of that function, an address in no function has no chunks, all
  addresses of a function's chunks belong to that one function (so no two functions share
  an address), the entry that \<open>first_func_chunk\<close> reports belongs to the same function,
  and no chunk is empty. \<open>func_addrs E d a\<close> is the address set of the function that owns
  \<open>a\<close>.
\<close>

definition func_addrs :: "'db engine \<Rightarrow> 'db \<Rightarrow> int \<Rightarrow> int set" where
  "func_addrs E d a = chunk_addrs (Chunks E d a)"

definition coherent :: "'db engine \<Rightarrow> 'db \<Rightarrow> bool" where
  "coherent E d \<longleftrightarrow>
     (\<forall>a. get_func E d a \<longrightarrow> a \<in> func_addrs E d a) \<and>
     (\<forall>a. \<not> get_func E d a \<longrightarrow> Chunks E d a = []) \<and>
     (\<forall>a b. b \<in> func_addrs E d a \<longrightarrow> get_func E d b \<and> Chunks E d b = Chunks E d a) \<and>
     (\<forall>a. get_func E d a \<longrightarrow> Chunks E d (first_func_chunk E d a) = Chunks E d a) \<and>
     (\<forall>a. \<forall>c \<in> set (Chunks E d a). fst c < snd c)"

text \<open>
  What one call may change. Item-level calls leave every function as it is. A creation
  leaves the existing functions as they are and builds the new one from addresses that
  were in no function. A deletion or detachment aimed at \<open>x\<close> releases only addresses of
  the function that owns \<open>x\<close>, creates nothing, and leaves every other function as it is.
  An engine keeps the data model on a set \<open>P\<close> of databases when its calls stay in \<open>P\<close>,
  every database of \<open>P\<close> is coherent, and every call changes that much and no more.
\<close>

definition same_functions :: "'db engine \<Rightarrow> 'db \<Rightarrow> 'db \<Rightarrow> bool" where
  "same_functions E d d' \<longleftrightarrow>
     (\<forall>b. get_func E d' b = get_func E d b \<and> Chunks E d' b = Chunks E d b)"

definition only_created :: "'db engine \<Rightarrow> 'db \<Rightarrow> 'db \<Rightarrow> bool" where
  "only_created E d d' \<longleftrightarrow>
     (\<forall>b. get_func E d b \<longrightarrow> get_func E d' b \<and> Chunks E d' b = Chunks E d b) \<and>
     (\<forall>b. \<not> get_func E d b \<and> get_func E d' b \<longrightarrow>
        (\<forall>c \<in> func_addrs E d' b. \<not> get_func E d c))"

definition only_removed :: "'db engine \<Rightarrow> 'db \<Rightarrow> int \<Rightarrow> 'db \<Rightarrow> bool" where
  "only_removed E d x d' \<longleftrightarrow>
     (\<forall>b. get_func E d' b \<longrightarrow>
        get_func E d b \<and>
        (Chunks E d' b = Chunks E d b \<or>
         b \<in> func_addrs E d x \<and> func_addrs E d' b \<subseteq> func_addrs E d b)) \<and>
     (\<forall>b. get_func E d b \<and> \<not> get_func E d' b \<longrightarrow> b \<in> func_addrs E d x)"

definition data_model_kept :: "'db engine \<Rightarrow> ('db \<Rightarrow> bool) \<Rightarrow> bool" where
  "data_model_kept E P \<longleftrightarrow>
     (\<forall>d. P d \<longrightarrow> coherent E d) \<and>
     (\<forall>d a. P d \<longrightarrow> P (snd (find_func_bounds E d a)) \<and>
        same_functions E d (snd (find_func_bounds E d a))) \<and>
     (\<forall>d a. P d \<longrightarrow> P (del_items E d a) \<and> same_functions E d (del_items E d a)) \<and>
     (\<forall>d a. P d \<longrightarrow> P (snd (create_insn E d a)) \<and>
        same_functions E d (snd (create_insn E d a))) \<and>
     (\<forall>d f t. P d \<longrightarrow> P (snd (remove_fchunk E d f t)) \<and>
        only_removed E d f (snd (remove_fchunk E d f t))) \<and>
     (\<forall>d a. P d \<longrightarrow> P (snd (add_func E d a)) \<and> only_created E d (snd (add_func E d a))) \<and>
     (\<forall>d a. P d \<longrightarrow> P (snd (del_func E d a)) \<and> only_removed E d a (snd (del_func E d a)))"

text \<open>
  The invariant of a run from the database \<open>d0\<close> with the original chunk set \<open>S\<close>: every
  function is either one of \<open>d0\<close> outside \<open>S\<close> and unchanged, or consists of addresses of
  \<open>S\<close> and of addresses that were in no function; and no address outside \<open>S\<close> has been
  released.
\<close>

definition confined :: "'db engine \<Rightarrow> 'db \<Rightarrow> int set \<Rightarrow> 'db \<Rightarrow> bool" where
  "confined E d0 S d \<longleftrightarrow>
     coherent E d \<and>
     (\<forall>b. get_func E d b \<longrightarrow>
        (get_func E d0 b \<and> b \<notin> S \<and> Chunks E d b = Chunks E d0 b) \<or>
        func_addrs E d b \<subseteq> S \<union> {a. \<not> get_func E d0 a}) \<and>
     (\<forall>b. get_func E d0 b \<and> b \<notin> S \<longrightarrow> get_func E d b)"


text \<open>
  The repair never asks the database whether \<open>addr\<close> has become a function start; it
  trusts the result of \<open>add_func\<close>. An engine on which that trust is justified for \<open>addr\<close>:
  a successful \<open>add_func(addr)\<close> makes \<open>addr\<close> a function start, and a later successful
  \<open>add_func\<close> leaves it one.
\<close>

definition creation_takes_effect :: "'db engine \<Rightarrow> int \<Rightarrow> bool" where
  "creation_takes_effect E addr \<longleftrightarrow>
     (\<forall>d d'. add_func E d addr = (True, d') \<longrightarrow> is_function_start E d' addr) \<and>
     (\<forall>d b d'. is_function_start E d addr \<and> add_func E d b = (True, d') \<longrightarrow>
        is_function_start E d' addr)"

subsection \<open>Classification of the logged calls\<close>

fun is_item_call :: "call \<Rightarrow> bool" where
  "is_item_call (FindFuncBounds a) = True"
| "is_item_call (DelItems a) = True"
| "is_item_call (CreateInsn a) = True"
| "is_item_call c = False"

section \<open>Properties\<close>

subsection \<open>Calls issued by the loops\<close>

lemma remove_fchunk_loop_calls:
  "\<exists>k\<le>n. calls (remove_fchunk_loop E func n s) = calls s @ replicate k (RemoveFchunk func func)"
proof (induction n arbitrary: s)
  case 0
  then show ?case by simp
next
  case (Suc n)
  obtain r s1 where c: "call_remove_fchunk E func func s = (r, s1)"
    by (cases "call_remove_fchunk E func func s")
  then have s1: "calls s1 = calls s @ [RemoveFchunk func func]"
    by (auto simp: call_remove_fchunk_def split: prod.splits)
  show ?case
  proof (cases r)
    case False
    with c s1 have "calls (remove_fchunk_loop E func (Suc n) s) =
        calls s @ replicate 1 (RemoveFchunk func func)"
      by simp
    then show ?thesis by (intro exI[of _ 1]) simp
  next
    case True
    from Suc.IH[of s1] obtain k where k: "k \<le> n"
      "calls (remove_fchunk_loop E func n s1) = calls s1 @ replicate k (RemoveFchunk func func)"
      by blast
    with c s1 True have "calls (remove_fchunk_loop E func (Suc n) s) =
        calls s @ replicate (Suc k) (RemoveFchunk func func)"
      by simp
    with k(1) show ?thesis by (intro exI[of _ "Suc k"]) simp
  qed
qed

lemma undo_damage_calls:
  "calls (undo_damage E cs s) = calls s @ map (\<lambda>c. DelFunc (fst c)) cs"
  by (induction E cs s rule: undo_damage.induct)
     (auto simp: call_del_func_def split: prod.splits)

lemma undo_damage_db:
  "db (undo_damage E cs s) = fold (\<lambda>c d. snd (del_func E d (fst c))) cs (db s)"
  by (induction E cs s rule: undo_damage.induct)
     (auto simp: call_del_func_def split: prod.splits)

lemma fix_calls:
  "fix_unrecognized_function_insns E func s = Some y \<Longrightarrow>
   \<exists>cs. calls (snd y) = calls s @ cs \<and> list_all is_item_call cs"
proof (induct rule: fix_unrecognized_function_insns.raw_induct[rotated 1, consumes 1])
  case (1 rec E func s y)
  show ?case
  proof (cases "find_func_end E (db s) func = BADADDR")
    case False
    with 1(2) show ?thesis by auto
  next
    case True
    obtain u s1 where b: "call_find_func_bounds E func s = (u, s1)"
      by (cases "call_find_func_bounds E func s")
    then have c1: "calls s1 = calls s @ [FindFuncBounds func]"
      by (auto simp: call_find_func_bounds_def split: prod.splits)
    show ?thesis
    proof (cases "u = 0")
      case True
      with \<open>find_func_end E (db s) func = BADADDR\<close> b 1(2) c1 show ?thesis
        by auto
    next
      case False
      define s2 where "s2 = call_del_items E u s1"
      obtain r s3 where c: "call_create_insn E u s2 = (r, s3)"
        by (cases "call_create_insn E u s2")
      then have c3: "calls s3 = calls s @ [FindFuncBounds func, DelItems u, CreateInsn u]"
        using c1 by (auto simp: call_create_insn_def call_del_items_def s2_def split: prod.splits)
      show ?thesis
      proof (cases "r = 0")
        case True
        with \<open>find_func_end E (db s) func = BADADDR\<close> b False c 1(2) c3 show ?thesis
          by (auto simp: s2_def Let_def)
      next
        case nz: False
        with \<open>find_func_end E (db s) func = BADADDR\<close> b False c 1(2)
        have "rec E func s3 = Some y" by (simp add: s2_def Let_def)
        from 1(1)[OF this] obtain cs where
          "calls (snd y) = calls s3 @ cs" "list_all is_item_call cs"
          by blast
        with c3 show ?thesis
          by (intro exI[of _ "[FindFuncBounds func, DelItems u, CreateInsn u] @ cs"]) simp
      qed
    qed
  qed
qed

subsection \<open>An address that is already a function start\<close>

text \<open>
  C2. If the database already classifies \<open>addr\<close> as a function start,
  \<open>force_function\<close> returns \<open>True\<close> at once: the database is the one it was given and
  no mutating call has been issued (the call log is unchanged).
\<close>

theorem force_function_idempotent:
  "is_function_start E (db s) addr \<Longrightarrow> force_function E addr s = Some (True, s)"
  by (simp add: force_function_def)

theorem force_function_idempotent_witness:
  "is_function_start mock (db (fresh db_mid_chunk)) 16 \<and>
   force_function mock 16 (fresh db_mid_chunk) = Some (True, fresh db_mid_chunk)"
proof -
  have h: "is_function_start mock (db (fresh db_mid_chunk)) 16"
    by code_simp
  show ?thesis using force_function_idempotent [OF h] h by simp
qed

subsection \<open>The structure of a run\<close>

lemma force_function_unfold:
  "\<not> is_function_start E (db s) func \<Longrightarrow> prepare E func s = Some s1 \<Longrightarrow>
   force_function E func s =
     Some (try_make_function E func (first_func_chunk E (db s) func) s1)"
  by (simp add: force_function_def convert_address_to_function_def)

lemma force_function_cases:
  assumes "force_function E func s = Some y"
  obtains (start) "is_function_start E (db s) func" "y = (True, s)"
  | (repair) s1 where "\<not> is_function_start E (db s) func" "prepare E func s = Some s1"
      "y = try_make_function E func (first_func_chunk E (db s) func) s1"
  using assms
  by (auto simp: force_function_def convert_address_to_function_def split: if_splits)

lemma try_make_function_False:
  assumes "try_make_function E func orig s1 = (False, s')" "orig \<noteq> BADADDR"
  shows "\<exists>s0. s' = snd (call_add_func E orig s0)"
  using assms
  by (auto simp: try_make_function_def restore_original_def Let_def
           split: prod.splits if_splits)

subsection \<open>Termination of the two loops\<close>

lemma never_resolving_diverges:
  assumes "fix_unrecognized_function_insns E func s = Some y" "E = never_resolving"
  shows False
  using assms
proof (induct rule: fix_unrecognized_function_insns.raw_induct[rotated 1, consumes 1])
  case (1 rec E func s y)
  define s3 where
    "s3 = \<lparr>db = db s, calls = calls s @ [FindFuncBounds func, DelItems 32, CreateInsn 32]\<rparr>"
  have "rec never_resolving func s3 = Some y"
    using 1(2) unfolding 1(3)
    by (simp add: never_resolving_def call_find_func_bounds_def call_del_items_def
          call_create_insn_def Let_def s3_def)
  with 1(1)[of never_resolving func s3 y] show ?case by simp
qed

lemma always_attached_loop:
  "remove_fchunk_loop always_attached f n s =
     \<lparr>db = db s, calls = calls s @ replicate n (RemoveFchunk f f)\<rparr>"
proof (induction n arbitrary: s)
  case 0
  show ?case by simp
next
  case (Suc n)
  have "call_remove_fchunk always_attached f f s =
          (True, \<lparr>db = db s, calls = calls s @ [RemoveFchunk f f]\<rparr>)"
    by (simp add: call_remove_fchunk_def always_attached_def)
  then show ?case
    by (simp add: Suc.IH replicate_app_Cons_same)
qed

text \<open>
  C3. The claim requires both loops to end within a fixed bound for every engine. The
  chunk-detachment loop does (\<open>range(1024)\<close>); the instruction-boundary recovery loop is
  \<open>while idc.find_func_end(func) == idc.BADADDR\<close> with no counter. On the engine that
  always reports an unresolved function end with a nonzero boundary item and lets
  undefining and \<open>create_insn\<close> succeed, the recovery loop never returns, and neither does
  \<open>force_function\<close>.
\<close>

theorem recovery_loop_never_returns:
  "fix_unrecognized_function_insns never_resolving 24 (fresh ()) = None \<and>
   force_function never_resolving 24 (fresh ()) = None"
proof -
  have a: "fix_unrecognized_function_insns never_resolving 24 (fresh ()) = None"
    using never_resolving_diverges[of never_resolving 24 "fresh ()"]
    by (cases "fix_unrecognized_function_insns never_resolving 24 (fresh ())") auto
  then show ?thesis
    by (simp add: force_function_def convert_address_to_function_def prepare_def
          is_function_start_def never_resolving_def fresh_def BADADDR_def)
qed

text \<open>
  The chunk-detachment loop is bounded for every engine: when the function end is known,
  the preparation returns after at most 1024 calls of \<open>remove_fchunk(func, func)\<close> and
  nothing else, and \<open>_convert_address_to_function\<close> returns with the outcome of the
  creation attempt that follows. On the engine that always reports the chunk as attached,
  the loop stops after exactly 1024 calls.
\<close>

lemma chunk_detachment_bounded:
  assumes "find_func_end E (db s) func \<noteq> BADADDR"
  shows "\<exists>s1 k. prepare E func s = Some s1 \<and> k \<le> 1024 \<and>
           calls s1 = calls s @ replicate k (RemoveFchunk func func) \<and>
           convert_address_to_function E func s =
             Some (try_make_function E func (first_func_chunk E (db s) func) s1)"
proof -
  from remove_fchunk_loop_calls[of 1024 E func s] obtain k where
    "k \<le> 1024" "calls (remove_fchunk_loop E func 1024 s) = calls s @ replicate k (RemoveFchunk func func)"
    by blast
  with assms show ?thesis
    by (intro exI[of _ "remove_fchunk_loop E func 1024 s"] exI[of _ k])
       (simp add: prepare_def convert_address_to_function_def)
qed

lemma chunk_detachment_bounded_at_always_attached:
  "find_func_end always_attached (db (fresh ())) 24 \<noteq> BADADDR \<and>
   prepare always_attached 24 (fresh ()) =
     Some \<lparr>db = (), calls = replicate 1024 (RemoveFchunk 24 24)\<rparr> \<and>
   force_function always_attached 24 (fresh ()) =
     Some (False, \<lparr>db = (), calls = replicate 1024 (RemoveFchunk 24 24) @ [AddFunc 24]\<rparr>)"
proof -
  have h: "find_func_end always_attached (db (fresh ())) 24 \<noteq> BADADDR"
    by (simp add: always_attached_def BADADDR_def)
  have p: "prepare always_attached 24 (fresh ()) =
     Some \<lparr>db = (), calls = replicate 1024 (RemoveFchunk 24 24)\<rparr>"
    using h by (simp add: prepare_def always_attached_loop fresh_def)
  have n: "\<not> is_function_start always_attached (db (fresh ())) 24"
    by (simp add: is_function_start_def always_attached_def BADADDR_def)
  from chunk_detachment_bounded[OF h] obtain s1 where
    "prepare always_attached 24 (fresh ()) = Some s1"
    "convert_address_to_function always_attached 24 (fresh ()) =
       Some (try_make_function always_attached 24
          (first_func_chunk always_attached (db (fresh ())) 24) s1)"
    by blast
  with p n have "force_function always_attached 24 (fresh ()) =
     Some (try_make_function always_attached 24 BADADDR
            \<lparr>db = (), calls = replicate 1024 (RemoveFchunk 24 24)\<rparr>)"
    by (simp add: force_function_def always_attached_def)
  moreover have "try_make_function always_attached 24 BADADDR
            \<lparr>db = (), calls = replicate 1024 (RemoveFchunk 24 24)\<rparr> =
      (False, \<lparr>db = (), calls = replicate 1024 (RemoveFchunk 24 24) @ [AddFunc 24]\<rparr>)"
    by (simp add: try_make_function_def call_add_func_def always_attached_def
          restore_original_def)
  ultimately show ?thesis using h p by simp
qed

subsection \<open>No failure is signalled other than by the boolean\<close>







subsection \<open>The destructive path\<close>

text \<open>
  C7. On the destructive path (the first creation at \<open>func\<close> failed and an original
  function \<open>orig\<close> exists), if deleting \<open>orig\<close> succeeds, creating a function at \<open>func\<close>
  then succeeds, creating a function at \<open>orig\<close> succeeds, and every chunk start of the
  snapshot taken before the deletion is in some function, \<open>force_function\<close> returns
  \<open>True\<close>.
\<close>

theorem destructive_path_success:
  assumes "\<not> is_function_start E (db s) func"
    and "prepare E func s = Some s1"
    and "orig = first_func_chunk E (db s) func"
    and "orig \<noteq> BADADDR"
    and "call_add_func E func s1 = (False, s2)"
    and "call_del_func E orig s2 = (True, s3)"
    and "call_add_func E func s3 = (True, s4)"
    and "call_add_func E orig s4 = (True, s5)"
    and "list_all (\<lambda>(start, end). get_func E (db s5) start) (Chunks E (db s2) orig)"
  shows "force_function E func s = Some (True, s5)"
  using assms by (simp add: force_function_unfold try_make_function_def)

theorem destructive_path_success_witness:
  "\<not> is_function_start mock (db (fresh db_repairable)) 24 \<and>
   first_func_chunk mock (db (fresh db_repairable)) 24 = 16 \<and>
   force_function mock 24 (fresh db_repairable) =
     Some (True,
       \<lparr>db = db_repairable\<lparr>funcs := [(24, [(24, 32)]), (16, [(16, 24)])]\<rparr>,
        calls = [RemoveFchunk 24 24, AddFunc 24, DelFunc 16, AddFunc 24, AddFunc 16]\<rparr>)"
proof -
  let ?s1 = "\<lparr>db = db_repairable, calls = [RemoveFchunk 24 24]\<rparr>"
  let ?s2 = "\<lparr>db = db_repairable, calls = [RemoveFchunk 24 24, AddFunc 24]\<rparr>"
  let ?s3 = "\<lparr>db = db_repairable\<lparr>funcs := []\<rparr>,
             calls = [RemoveFchunk 24 24, AddFunc 24, DelFunc 16]\<rparr>"
  let ?s4 = "\<lparr>db = db_repairable\<lparr>funcs := [(24, [(24, 32)])]\<rparr>,
             calls = [RemoveFchunk 24 24, AddFunc 24, DelFunc 16, AddFunc 24]\<rparr>"
  let ?s5 = "\<lparr>db = db_repairable\<lparr>funcs := [(24, [(24, 32)]), (16, [(16, 24)])]\<rparr>,
             calls = [RemoveFchunk 24 24, AddFunc 24, DelFunc 16, AddFunc 24, AddFunc 16]\<rparr>"
  have h1: "\<not> is_function_start mock (db (fresh db_repairable)) 24" by code_simp
  have h2: "prepare mock 24 (fresh db_repairable) = Some ?s1" by code_simp
  have h3: "16 = first_func_chunk mock (db (fresh db_repairable)) 24" by code_simp
  have h4: "(16::int) \<noteq> BADADDR" by code_simp
  have h5: "call_add_func mock 24 ?s1 = (False, ?s2)" by code_simp
  have h6: "call_del_func mock 16 ?s2 = (True, ?s3)" by code_simp
  have h7: "call_add_func mock 24 ?s3 = (True, ?s4)" by code_simp
  have h8: "call_add_func mock 16 ?s4 = (True, ?s5)" by code_simp
  have h9: "list_all (\<lambda>(start, end). get_func mock (db ?s5) start) (Chunks mock (db ?s2) 16)"
    by code_simp
  from destructive_path_success [OF h1 h2 h3 h4 h5 h6 h7 h8 h9] h1 h3 show ?thesis
    by simp
qed

text \<open>
  C8. On the destructive path after a successful deletion of \<open>orig\<close>, if the creation at
  \<open>func\<close> fails, or the creation at \<open>orig\<close> fails, or some chunk start of the snapshot is
  in no function, then the rollback calls \<open>del_func\<close> at every chunk start of the
  snapshot, in order and whatever each call returns, then calls \<open>add_func(orig)\<close>, and
  \<open>force_function\<close> returns \<open>False\<close> whatever that last call returns. \<open>sr\<close> is the
  state in which the rollback starts.
\<close>

theorem destructive_path_rollback:
  assumes "\<not> is_function_start E (db s) func"
    and "prepare E func s = Some s1"
    and "orig = first_func_chunk E (db s) func"
    and "orig \<noteq> BADADDR"
    and "call_add_func E func s1 = (False, s2)"
    and "chunks = Chunks E (db s2) orig"
    and "call_del_func E orig s2 = (True, s3)"
    and "call_add_func E func s3 = (r3, s4)"
    and "call_add_func E orig s4 = (r4, s5)"
    and "\<not> (r3 \<and> r4 \<and> list_all (\<lambda>(start, end). get_func E (db s5) start) chunks)"
    and "sr = (if r3 then s5 else s4)"
  shows "force_function E func s =
           Some (False, snd (call_add_func E orig (undo_damage E chunks sr))) \<and>
         db (undo_damage E chunks sr) =
           fold (\<lambda>c d. snd (del_func E d (fst c))) chunks (db sr) \<and>
         calls (snd (call_add_func E orig (undo_damage E chunks sr))) =
           calls sr @ map (\<lambda>c. DelFunc (fst c)) chunks @ [AddFunc orig]"
proof -
  have "force_function E func s =
           Some (False, snd (call_add_func E orig (undo_damage E chunks sr)))"
    using assms
    by (auto simp: force_function_unfold try_make_function_def restore_original_def Let_def)
  moreover have "calls (snd (call_add_func E orig (undo_damage E chunks sr))) =
           calls sr @ map (\<lambda>c. DelFunc (fst c)) chunks @ [AddFunc orig]"
    by (simp add: call_add_func_def undo_damage_calls split: prod.splits)
  ultimately show ?thesis by (simp add: undo_damage_db)
qed

theorem destructive_path_rollback_witness:
  "\<not> is_function_start mock (db (fresh db_mid_chunk)) 24 \<and>
   first_func_chunk mock (db (fresh db_mid_chunk)) 24 = 16 \<and>
   force_function mock 24 (fresh db_mid_chunk) =
     Some (False,
       \<lparr>db = db_mid_chunk\<lparr>funcs := [(24, [(24, 32)])]\<rparr>,
        calls = [RemoveFchunk 24 24, AddFunc 24, DelFunc 16, AddFunc 24, AddFunc 16,
                 DelFunc 16, AddFunc 16]\<rparr>)"
proof -
  let ?s1 = "\<lparr>db = db_mid_chunk, calls = [RemoveFchunk 24 24]\<rparr>"
  let ?s2 = "\<lparr>db = db_mid_chunk, calls = [RemoveFchunk 24 24, AddFunc 24]\<rparr>"
  let ?s3 = "\<lparr>db = db_mid_chunk\<lparr>funcs := []\<rparr>,
             calls = [RemoveFchunk 24 24, AddFunc 24, DelFunc 16]\<rparr>"
  let ?s4 = "\<lparr>db = db_mid_chunk\<lparr>funcs := [(24, [(24, 32)])]\<rparr>,
             calls = [RemoveFchunk 24 24, AddFunc 24, DelFunc 16, AddFunc 24]\<rparr>"
  let ?s5 = "\<lparr>db = db_mid_chunk\<lparr>funcs := [(24, [(24, 32)])]\<rparr>,
             calls = [RemoveFchunk 24 24, AddFunc 24, DelFunc 16, AddFunc 24, AddFunc 16]\<rparr>"
  have h1: "\<not> is_function_start mock (db (fresh db_mid_chunk)) 24" by code_simp
  have h2: "prepare mock 24 (fresh db_mid_chunk) = Some ?s1" by code_simp
  have h3: "16 = first_func_chunk mock (db (fresh db_mid_chunk)) 24" by code_simp
  have h4: "(16::int) \<noteq> BADADDR" by code_simp
  have h5: "call_add_func mock 24 ?s1 = (False, ?s2)" by code_simp
  have h6: "[(16, 32)] = Chunks mock (db ?s2) 16" by code_simp
  have h7: "call_del_func mock 16 ?s2 = (True, ?s3)" by code_simp
  have h8: "call_add_func mock 24 ?s3 = (True, ?s4)" by code_simp
  have h9: "call_add_func mock 16 ?s4 = (False, ?s5)" by code_simp
  have h10: "\<not> (True \<and> False \<and>
      list_all (\<lambda>(start, end). get_func mock (db ?s5) start) [(16, 32)])" by simp
  have h11: "?s5 = (if True then ?s5 else ?s4)" by simp
  have u: "snd (call_add_func mock 16 (undo_damage mock [(16, 32)] ?s5)) =
      \<lparr>db = db_mid_chunk\<lparr>funcs := [(24, [(24, 32)])]\<rparr>,
       calls = [RemoveFchunk 24 24, AddFunc 24, DelFunc 16, AddFunc 24, AddFunc 16,
                DelFunc 16, AddFunc 16]\<rparr>"
    by code_simp
  from destructive_path_rollback [OF h1 h2 h3 h4 h5 h6 h7 h8 h9 h10 h11] u h1 h3
  show ?thesis by simp
qed

subsection \<open>The last call on a failing path\<close>

text \<open>
  C10. Whenever \<open>force_function\<close> returns \<open>False\<close> and the first chunk captured at entry
  is not \<open>BADADDR\<close>, the last thing the run did was one call \<open>add_func(orig)\<close>: the final
  database is the one that call left, the call is the last entry of the log, and its result
  is dropped, so the returned \<open>False\<close> does not depend on it.
\<close>

theorem final_restore_attempt:
  assumes "force_function E func s = Some (False, s')"
    and "first_func_chunk E (db s) func \<noteq> BADADDR"
  shows "(\<exists>s0. s' = snd (call_add_func E (first_func_chunk E (db s) func) s0)) \<and>
         calls s' \<noteq> [] \<and>
         last (calls s') = AddFunc (first_func_chunk E (db s) func)"
proof -
  from assms(1) obtain s1 where
    "try_make_function E func (first_func_chunk E (db s) func) s1 = (False, s')"
    by (cases rule: force_function_cases) auto
  from try_make_function_False[OF this assms(2)] obtain s0 where
    s0: "s' = snd (call_add_func E (first_func_chunk E (db s) func) s0)" by blast
  then have "calls s' = calls s0 @ [AddFunc (first_func_chunk E (db s) func)]"
    by (simp add: call_add_func_def split: prod.splits)
  with s0 show ?thesis by auto
qed

theorem final_restore_attempt_witness:
  "first_func_chunk mock (db (fresh db_mid_chunk)) 24 = 16 \<and>
   fst (the (force_function mock 24 (fresh db_mid_chunk))) = False \<and>
   last (calls (snd (the (force_function mock 24 (fresh db_mid_chunk))))) = AddFunc 16"
proof -
  let ?s' = "\<lparr>db = db_mid_chunk\<lparr>funcs := [(24, [(24, 32)])]\<rparr>,
       calls = [RemoveFchunk 24 24, AddFunc 24, DelFunc 16, AddFunc 24, AddFunc 16,
                DelFunc 16, AddFunc 16]\<rparr>"
  have r: "force_function mock 24 (fresh db_mid_chunk) = Some (False, ?s')"
    by code_simp
  have o: "first_func_chunk mock (db (fresh db_mid_chunk)) 24 = 16" by code_simp
  then have h: "first_func_chunk mock (db (fresh db_mid_chunk)) 24 \<noteq> BADADDR"
    by (simp add: BADADDR_def)
  from final_restore_attempt [OF r h, THEN conjunct2, THEN conjunct2]
  have "last (calls ?s') = AddFunc 16"
    unfolding o .
  with r o show ?thesis by simp
qed

subsection \<open>Facts about the test database\<close>

lemma mock_simps [simp]:
  "add_func mock = mock_add_func" "del_func mock = mock_del_func"
  "remove_fchunk mock = mock_remove_fchunk" "create_insn mock = mock_create_insn"
  "find_func_bounds mock = mock_find_func_bounds" "del_items mock = (\<lambda>d a. d)"
  "get_func mock = (\<lambda>d a. owner d a \<noteq> None)" "get_func_attr_start mock = mock_entry"
  "first_func_chunk mock = mock_entry" "Chunks mock = mock_chunks"
  "find_func_end mock = mock_find_func_end"
  by (simp_all add: mock_def)

lemma find_app:
  "find P (xs @ ys) = (case find P xs of None \<Rightarrow> find P ys | Some x \<Rightarrow> Some x)"
  by (induction xs) auto

lemma owner_append:
  "owner (d\<lparr>funcs := funcs d @ fs\<rparr>) a =
     (case owner d a of None \<Rightarrow> find (\<lambda>(e, cs). in_chunks a cs) fs | Some f \<Rightarrow> Some f)"
  by (simp add: owner_def find_app)

lemma mock_add_func_True:
  assumes "mock_add_func d a = (True, d')"
  shows "\<exists>e. owner d a = None \<and> a < e \<and> d' = d\<lparr>funcs := funcs d @ [(a, [(a, e)])]\<rparr>"
  using assms by (auto simp: mock_add_func_def split: option.splits if_splits)

lemma mock_creation_takes_effect: "creation_takes_effect mock 24"
  unfolding creation_takes_effect_def
proof (intro conjI allI impI)
  fix d d' assume "add_func mock d 24 = (True, d')"
  then obtain e where "owner d 24 = None" "24 < e" "d' = d\<lparr>funcs := funcs d @ [(24, [(24, e)])]\<rparr>"
    using mock_add_func_True[of d 24 d'] by auto
  then show "is_function_start mock d' 24"
    by (simp add: is_function_start_def mock_entry_def owner_append in_chunks_def)
next
  fix d b d' assume a: "is_function_start mock d 24 \<and> add_func mock d b = (True, d')"
  then obtain e where d': "d' = d\<lparr>funcs := funcs d @ [(b, [(b, e)])]\<rparr>"
    using mock_add_func_True[of d b d'] by auto
  from a have "owner d 24 \<noteq> None"
    by (auto simp: is_function_start_def mock_entry_def BADADDR_def split: option.splits)
  with a show "is_function_start mock d' 24"
    by (auto simp: is_function_start_def mock_entry_def owner_append d' split: option.splits)
qed

subsection \<open>After a failed instruction-boundary recovery\<close>

text \<open>
  C4 (as stated, refuted). On \<open>db_no_boundary\<close> the engine names no boundary item
  (\<open>find_func_bounds\<close> yields \<open>0\<close>), so the recovery returns \<open>False\<close>; the repair still
  calls \<open>add_func(24)\<close>, which succeeds, and \<open>force_function\<close> returns \<open>True\<close>.
\<close>

theorem failed_recovery_counterexample:
  "find_func_end mock db_no_boundary 24 = BADADDR \<and>
   find_func_bounds mock db_no_boundary 24 = (0, db_no_boundary) \<and>
   fix_unrecognized_function_insns mock 24 (fresh db_no_boundary) =
     Some (False, \<lparr>db = db_no_boundary, calls = [FindFuncBounds 24]\<rparr>) \<and>
   force_function mock 24 (fresh db_no_boundary) =
     Some (True, \<lparr>db = db_no_boundary\<lparr>funcs := [(24, [(24, 32)])]\<rparr>,
                  calls = [FindFuncBounds 24, AddFunc 24]\<rparr>)"
  by code_simp

text \<open>
  C4 (amended). When the recovery fails, the chunk-detachment is skipped (the recovery
  has issued item-level calls only), but the result of the recovery is not consulted: the
  repair continues with the creation attempt at \<open>func\<close> exactly as after a successful
  recovery, and returns \<open>True\<close> if that creation succeeds.
\<close>

theorem failed_recovery_proceeds_to_creation:
  assumes "\<not> is_function_start E (db s) func"
    and "find_func_end E (db s) func = BADADDR"
    and "fix_unrecognized_function_insns E func s = Some (False, s1)"
  shows "force_function E func s =
           Some (try_make_function E func (first_func_chunk E (db s) func) s1) \<and>
         (\<exists>cs. calls s1 = calls s @ cs \<and> list_all is_item_call cs) \<and>
         (fst (call_add_func E func s1) \<longrightarrow>
            force_function E func s = Some (True, snd (call_add_func E func s1)))"
proof -
  have p: "prepare E func s = Some s1"
    using assms(2,3) by (simp add: prepare_def)
  have a: "force_function E func s =
           Some (try_make_function E func (first_func_chunk E (db s) func) s1)"
    by (rule force_function_unfold[OF assms(1) p])
  have b: "\<exists>cs. calls s1 = calls s @ cs \<and> list_all is_item_call cs"
    using fix_calls[OF assms(3)] by simp
  have c: "fst (call_add_func E func s1) \<longrightarrow>
            force_function E func s = Some (True, snd (call_add_func E func s1))"
    unfolding a by (auto simp: try_make_function_def split: prod.splits)
  from a b c show ?thesis by blast
qed

theorem failed_recovery_proceeds_to_creation_witness:
  "fix_unrecognized_function_insns mock 24 (fresh db_no_boundary) =
     Some (False, \<lparr>db = db_no_boundary, calls = [FindFuncBounds 24]\<rparr>) \<and>
   force_function mock 24 (fresh db_no_boundary) =
     Some (try_make_function mock 24 BADADDR \<lparr>db = db_no_boundary, calls = [FindFuncBounds 24]\<rparr>)"
proof -
  have h1: "\<not> is_function_start mock (db (fresh db_no_boundary)) 24" by code_simp
  have h2: "find_func_end mock (db (fresh db_no_boundary)) 24 = BADADDR" by code_simp
  have h3: "fix_unrecognized_function_insns mock 24 (fresh db_no_boundary) =
     Some (False, \<lparr>db = db_no_boundary, calls = [FindFuncBounds 24]\<rparr>)" by code_simp
  have o: "first_func_chunk mock (db (fresh db_no_boundary)) 24 = BADADDR" by code_simp
  from failed_recovery_proceeds_to_creation [OF h1 h2 h3, THEN conjunct1] h3 o
  show ?thesis by simp
qed

subsection \<open>The returned boolean and the state of the database\<close>

text \<open>
  C1 (as stated, refuted). On \<open>db_mid_chunk\<close>, \<open>24\<close> is not a function start; the second
  \<open>add_func(24)\<close> succeeds, \<open>add_func(16)\<close> fails, the rollback finds no function at the
  chunk start \<open>16\<close> to delete, and \<open>force_function\<close> returns \<open>False\<close> although \<open>24\<close> is a
  function start in the database it leaves.
\<close>

theorem returns_false_at_function_start_counterexample:
  "\<not> is_function_start mock (db (fresh db_mid_chunk)) 24 \<and>
   force_function mock 24 (fresh db_mid_chunk) =
     Some (False,
       \<lparr>db = db_mid_chunk\<lparr>funcs := [(24, [(24, 32)])]\<rparr>,
        calls = [RemoveFchunk 24 24, AddFunc 24, DelFunc 16, AddFunc 24, AddFunc 16,
                 DelFunc 16, AddFunc 16]\<rparr>) \<and>
   is_function_start mock (db_mid_chunk\<lparr>funcs := [(24, [(24, 32)])]\<rparr>) 24"
  by code_simp

text \<open>
  C1 (amended). One direction holds on engines where creation takes effect: if
  \<open>force_function\<close> returns \<open>True\<close>, then \<open>addr\<close> is a function start in the database at
  the moment of the return.
\<close>

theorem true_implies_function_start:
  assumes "creation_takes_effect E addr"
    and "force_function E addr s = Some (True, s')"
  shows "is_function_start E (db s') addr"
  using assms(2)
proof (cases rule: force_function_cases)
  case start
  then show ?thesis by simp
next
  case (repair s1)
  from assms(1) have A: "\<And>d d'. add_func E d addr = (True, d') \<Longrightarrow> is_function_start E d' addr"
    and B: "\<And>d b d'. is_function_start E d addr \<Longrightarrow> add_func E d b = (True, d') \<Longrightarrow>
        is_function_start E d' addr"
    unfolding creation_takes_effect_def by blast+
  have A': "\<And>s0 s0'. call_add_func E addr s0 = (True, s0') \<Longrightarrow> is_function_start E (db s0') addr"
    using A by (auto simp: call_add_func_def split: prod.splits)
  have B': "\<And>s0 b s0'. is_function_start E (db s0) addr \<Longrightarrow> call_add_func E b s0 = (True, s0') \<Longrightarrow>
        is_function_start E (db s0') addr"
    using B by (auto simp: call_add_func_def split: prod.splits)
  from repair(3) show ?thesis
    by (auto simp: try_make_function_def Let_def split: prod.splits if_splits
             dest: A' B')
qed

theorem true_implies_function_start_witness:
  "force_function mock 24 (fresh db_repairable) =
     Some (True,
       \<lparr>db = db_repairable\<lparr>funcs := [(24, [(24, 32)]), (16, [(16, 24)])]\<rparr>,
        calls = [RemoveFchunk 24 24, AddFunc 24, DelFunc 16, AddFunc 24, AddFunc 16]\<rparr>) \<and>
   is_function_start mock (db_repairable\<lparr>funcs := [(24, [(24, 32)]), (16, [(16, 24)])]\<rparr>) 24"
proof -
  have r: "force_function mock 24 (fresh db_repairable) =
     Some (True,
       \<lparr>db = db_repairable\<lparr>funcs := [(24, [(24, 32)]), (16, [(16, 24)])]\<rparr>,
        calls = [RemoveFchunk 24 24, AddFunc 24, DelFunc 16, AddFunc 24, AddFunc 16]\<rparr>)"
    by code_simp
  from true_implies_function_start [OF mock_creation_takes_effect r] r show ?thesis by simp
qed

subsection \<open>Invariants of the database along a run\<close>

lemma fix_invariant:
  assumes "fix_unrecognized_function_insns E func s = Some y"
    and "Q (db s)"
    and "\<forall>d a. Q d \<longrightarrow> Q (snd (find_func_bounds E d a))"
    and "\<forall>d a. Q d \<longrightarrow> Q (del_items E d a)"
    and "\<forall>d a. Q d \<longrightarrow> Q (snd (create_insn E d a))"
  shows "Q (db (snd y))"
  using assms
proof (induct rule: fix_unrecognized_function_insns.raw_induct[rotated 1, consumes 1])
  case (1 rec E func s y)
  show ?case
  proof (cases "find_func_end E (db s) func = BADADDR")
    case False
    with 1(2,3) show ?thesis by auto
  next
    case True
    obtain u s1 where b: "call_find_func_bounds E func s = (u, s1)"
      by (cases "call_find_func_bounds E func s")
    then have "db s1 = snd (find_func_bounds E (db s) func)"
      by (auto simp: call_find_func_bounds_def split: prod.splits)
    with 1(3,4) have q1: "Q (db s1)" by simp
    show ?thesis
    proof (cases "u = 0")
      case True
      with \<open>find_func_end E (db s) func = BADADDR\<close> b 1(2) q1 show ?thesis
        by auto
    next
      case False
      define s2 where "s2 = call_del_items E u s1"
      obtain r s3 where c: "call_create_insn E u s2 = (r, s3)"
        by (cases "call_create_insn E u s2")
      then have "db s3 = snd (create_insn E (del_items E (db s1) u) u)"
        by (auto simp: call_create_insn_def call_del_items_def s2_def split: prod.splits)
      with q1 1(5,6) have q3: "Q (db s3)" by simp
      show ?thesis
      proof (cases "r = 0")
        case True
        with \<open>find_func_end E (db s) func = BADADDR\<close> b False c 1(2) q3 show ?thesis
          by (auto simp: s2_def Let_def)
      next
        case nz: False
        with \<open>find_func_end E (db s) func = BADADDR\<close> b False c 1(2)
        have "rec E func s3 = Some y" by (simp add: s2_def Let_def)
        from 1(1)[OF this q3 1(4,5,6)] show ?thesis .
      qed
    qed
  qed
qed

lemma remove_fchunk_loop_invariant:
  assumes "\<forall>d. Q d \<longrightarrow> Q (snd (remove_fchunk E d func func))"
  shows "Q (db s) \<Longrightarrow> Q (db (remove_fchunk_loop E func n s))"
proof (induction n arbitrary: s)
  case 0
  then show ?case by simp
next
  case (Suc n)
  obtain r s1 where c: "call_remove_fchunk E func func s = (r, s1)"
    by (cases "call_remove_fchunk E func func s")
  then have "db s1 = snd (remove_fchunk E (db s) func func)"
    by (auto simp: call_remove_fchunk_def split: prod.splits)
  with assms Suc.prems have "Q (db s1)" by simp
  with c Suc.IH[of s1] show ?case by simp
qed

lemma prepare_invariant:
  assumes "prepare E func s = Some s1"
    and "Q (db s)"
    and "\<forall>d a. Q d \<longrightarrow> Q (snd (find_func_bounds E d a))"
    and "\<forall>d a. Q d \<longrightarrow> Q (del_items E d a)"
    and "\<forall>d a. Q d \<longrightarrow> Q (snd (create_insn E d a))"
    and "\<forall>d. Q d \<longrightarrow> Q (snd (remove_fchunk E d func func))"
  shows "Q (db s1)"
proof (cases "find_func_end E (db s) func = BADADDR")
  case True
  with assms(1) obtain y where y: "fix_unrecognized_function_insns E func s = Some y" "s1 = snd y"
    by (auto simp: prepare_def)
  from fix_invariant[OF y(1) assms(2,3,4,5)] y(2) show ?thesis by simp
next
  case False
  with assms(1) have "s1 = remove_fchunk_loop E func 1024 s"
    by (simp add: prepare_def)
  with remove_fchunk_loop_invariant[OF assms(6) assms(2)] show ?thesis by simp
qed


lemma undo_damage_invariant:
  assumes "\<forall>d c. Q d \<and> c \<in> set cs \<longrightarrow> Q (snd (del_func E d (fst c)))"
  shows "Q (db s) \<Longrightarrow> Q (db (undo_damage E cs s))"
  using assms
proof (induction E cs s rule: undo_damage.induct)
  case (1 E s)
  then show ?case by simp
next
  case (2 E start e chunks s)
  have "db (snd (call_del_func E start s)) = snd (del_func E (db s) start)"
    by (simp add: call_del_func_def split: prod.splits)
  with 2(2,3) have "Q (db (snd (call_del_func E start s)))" by force
  with 2(1)[OF this] 2(3) show ?case by simp
qed

lemma call_add_funcD:
  "call_add_func E a s = (r, s') \<Longrightarrow>
   r = fst (add_func E (db s) a) \<and> db s' = snd (add_func E (db s) a) \<and>
   calls s' = calls s @ [AddFunc a]"
  by (auto simp: call_add_func_def split: prod.splits)

lemma call_del_funcD:
  "call_del_func E a s = (r, s') \<Longrightarrow>
   r = fst (del_func E (db s) a) \<and> db s' = snd (del_func E (db s) a) \<and>
   calls s' = calls s @ [DelFunc a]"
  by (auto simp: call_del_func_def split: prod.splits)

lemma db_call_add_func: "db (snd (call_add_func E a s)) = snd (add_func E (db s) a)"
  by (simp add: call_add_func_def split: prod.splits)

lemma restore_original_invariant:
  "\<forall>d. Q d \<longrightarrow> Q (snd (add_func E d orig)) \<Longrightarrow> Q (db s) \<Longrightarrow>
   Q (db (restore_original E orig s))"
  by (simp add: restore_original_def db_call_add_func)

lemma try_make_function_invariant:
  assumes "try_make_function E func orig s1 = (r, s')"
    and "Q (db s1)"
    and "\<forall>d. Q d \<longrightarrow> Q (snd (add_func E d func))"
    and "\<forall>d. Q d \<longrightarrow> Q (snd (add_func E d orig))"
    and "\<forall>d. Q d \<longrightarrow> Q (snd (del_func E d orig))"
    and "\<forall>d0 d c. Q d0 \<and> Q d \<and> c \<in> set (Chunks E d0 orig) \<longrightarrow> Q (snd (del_func E d (fst c)))"
  shows "Q (db s')"
proof -
  obtain r1 s2 where a1: "call_add_func E func s1 = (r1, s2)"
    by (cases "call_add_func E func s1")
  obtain r2 s3 where a2: "call_del_func E orig s2 = (r2, s3)"
    by (cases "call_del_func E orig s2")
  obtain r3 s4 where a3: "call_add_func E func s3 = (r3, s4)"
    by (cases "call_add_func E func s3")
  obtain r4 s5 where a4: "call_add_func E orig s4 = (r4, s5)"
    by (cases "call_add_func E orig s4")
  define chunks where "chunks = Chunks E (db s2) orig"
  have q2: "Q (db s2)" using assms(2,3) call_add_funcD[OF a1] by simp
  have q3: "Q (db s3)" using q2 assms(5) call_del_funcD[OF a2] by simp
  have q4: "Q (db s4)" using q3 assms(3) call_add_funcD[OF a3] by simp
  have q5: "Q (db s5)" using q4 assms(4) call_add_funcD[OF a4] by simp
  have del: "\<forall>d c. Q d \<and> c \<in> set chunks \<longrightarrow> Q (snd (del_func E d (fst c)))"
    using assms(6) q2 unfolding chunks_def by blast
  have u: "\<And>s0. Q (db s0) \<Longrightarrow> Q (db (restore_original E orig (undo_damage E chunks s0)))"
    by (rule restore_original_invariant[OF assms(4)]) (rule undo_damage_invariant[OF del])
  have r: "\<And>s0. Q (db s0) \<Longrightarrow> Q (db (restore_original E orig s0))"
    by (rule restore_original_invariant[OF assms(4)])
  have "s' = s2 \<or> s' = s5 \<or> s' = restore_original E orig (undo_damage E chunks s5) \<or>
        s' = restore_original E orig (undo_damage E chunks s4) \<or>
        s' = restore_original E orig s3 \<or> s' = restore_original E orig s2"
    using assms(1) a1 a2 a3 a4
    unfolding try_make_function_def chunks_def Let_def
    by (auto split: if_splits)
  with q2 q5 u[OF q5] u[OF q4] r[OF q3] r[OF q2] show ?thesis by auto
qed

subsection \<open>Total failure without an original function\<close>




subsection \<open>Addresses left without a function\<close>

text \<open>
  The addresses "left owned by no function" by a call are read as the released ones: in
  some function before the call and in none after it. (The set of all addresses in no
  function is not bounded by any chunk set: most addresses of a database are in none.)
\<close>

lemma coherentD:
  assumes "coherent E d"
  shows "get_func E d a \<Longrightarrow> a \<in> func_addrs E d a"
    and "\<not> get_func E d a \<Longrightarrow> Chunks E d a = []"
    and "b \<in> func_addrs E d a \<Longrightarrow> get_func E d b"
    and "b \<in> func_addrs E d a \<Longrightarrow> Chunks E d b = Chunks E d a"
    and "get_func E d a \<Longrightarrow> Chunks E d (first_func_chunk E d a) = Chunks E d a"
    and "c \<in> set (Chunks E d a) \<Longrightarrow> fst c < snd c"
  using assms unfolding coherent_def by blast+

lemma func_addrs_unowned:
  "coherent E d \<Longrightarrow> \<not> get_func E d a \<Longrightarrow> func_addrs E d a = {}"
  by (simp add: func_addrs_def chunk_addrs_def coherentD(2))

lemma confined_initial:
  assumes "coherent E d0"
  shows "confined E d0 (func_addrs E d0 orig) d0"
  unfolding confined_def
proof (intro conjI allI impI)
  show "coherent E d0" by fact
next
  fix b assume "get_func E d0 b"
  show "(get_func E d0 b \<and> b \<notin> func_addrs E d0 orig \<and> Chunks E d0 b = Chunks E d0 b) \<or>
        func_addrs E d0 b \<subseteq> func_addrs E d0 orig \<union> {a. \<not> get_func E d0 a}"
  proof (cases "b \<in> func_addrs E d0 orig")
    case True
    from coherentD(4)[OF assms True] have "func_addrs E d0 b = func_addrs E d0 orig"
      by (simp add: func_addrs_def)
    then show ?thesis by simp
  next
    case False
    with \<open>get_func E d0 b\<close> show ?thesis by simp
  qed
next
  fix b assume "get_func E d0 b \<and> b \<notin> func_addrs E d0 orig"
  then show "get_func E d0 b" by simp
qed

lemma confined_target:
  assumes "confined E d0 S d" and "get_func E d0 x \<longrightarrow> x \<in> S"
  shows "func_addrs E d x \<subseteq> S \<union> {a. \<not> get_func E d0 a}"
proof (cases "get_func E d x")
  case False
  with assms(1) show ?thesis
    by (simp add: confined_def func_addrs_unowned)
next
  case True
  with assms show ?thesis unfolding confined_def by blast
qed

lemma confined_same:
  assumes "confined E d0 S d" "coherent E d'" "same_functions E d d'"
  shows "confined E d0 S d'"
  using assms unfolding confined_def same_functions_def func_addrs_def by simp

lemma confined_created:
  assumes c: "confined E d0 S d" and co: "coherent E d'" and cr: "only_created E d d'"
  shows "confined E d0 S d'"
  unfolding confined_def
proof (intro conjI allI impI)
  show "coherent E d'" by fact
next
  fix b assume b: "get_func E d' b"
  show "(get_func E d0 b \<and> b \<notin> S \<and> Chunks E d' b = Chunks E d0 b) \<or>
        func_addrs E d' b \<subseteq> S \<union> {a. \<not> get_func E d0 a}"
  proof (cases "get_func E d b")
    case True
    with cr have "Chunks E d' b = Chunks E d b" unfolding only_created_def by blast
    with c True show ?thesis unfolding confined_def func_addrs_def by simp
  next
    case False
    with cr b have n: "\<forall>c \<in> func_addrs E d' b. \<not> get_func E d c"
      unfolding only_created_def by blast
    have "func_addrs E d' b \<subseteq> S \<union> {a. \<not> get_func E d0 a}"
    proof
      fix a assume "a \<in> func_addrs E d' b"
      with n have "\<not> get_func E d a" by blast
      with c have "\<not> (get_func E d0 a \<and> a \<notin> S)" unfolding confined_def by blast
      then show "a \<in> S \<union> {a. \<not> get_func E d0 a}" by blast
    qed
    then show ?thesis ..
  qed
next
  fix b assume "get_func E d0 b \<and> b \<notin> S"
  with c have "get_func E d b" unfolding confined_def by blast
  with cr show "get_func E d' b" unfolding only_created_def by blast
qed

lemma confined_removed:
  assumes c: "confined E d0 S d" and co: "coherent E d'" and rm: "only_removed E d x d'"
    and x: "get_func E d0 x \<longrightarrow> x \<in> S"
  shows "confined E d0 S d'"
  unfolding confined_def
proof (intro conjI allI impI)
  show "coherent E d'" by fact
next
  from c have cd: "coherent E d" unfolding confined_def by blast
  note T = confined_target[OF c x]
  fix b assume b: "get_func E d' b"
  with rm have bd: "get_func E d b" and
    ch: "Chunks E d' b = Chunks E d b \<or>
         b \<in> func_addrs E d x \<and> func_addrs E d' b \<subseteq> func_addrs E d b"
    unfolding only_removed_def by blast+
  from ch show "(get_func E d0 b \<and> b \<notin> S \<and> Chunks E d' b = Chunks E d0 b) \<or>
        func_addrs E d' b \<subseteq> S \<union> {a. \<not> get_func E d0 a}"
  proof
    assume "Chunks E d' b = Chunks E d b"
    with c bd show ?thesis unfolding confined_def func_addrs_def by simp
  next
    assume a: "b \<in> func_addrs E d x \<and> func_addrs E d' b \<subseteq> func_addrs E d b"
    with coherentD(4)[OF cd, of b x] have "func_addrs E d b = func_addrs E d x"
      by (simp add: func_addrs_def)
    with a T have "func_addrs E d' b \<subseteq> S \<union> {a. \<not> get_func E d0 a}" by blast
    then show ?thesis ..
  qed
next
  note T = confined_target[OF c x]
  fix b assume b: "get_func E d0 b \<and> b \<notin> S"
  with c have bd: "get_func E d b" unfolding confined_def by blast
  show "get_func E d' b"
  proof (rule ccontr)
    assume "\<not> get_func E d' b"
    with rm bd have "b \<in> func_addrs E d x" unfolding only_removed_def by blast
    with T b show False by blast
  qed
qed

lemma finite_chunk_addrs: "finite (chunk_addrs cs)"
  by (simp add: chunk_addrs_def)

lemma chunk_start_in: "c \<in> set cs \<Longrightarrow> fst c < snd c \<Longrightarrow> fst c \<in> chunk_addrs cs"
  by (auto simp: chunk_addrs_def)

lemma released_within_original:
  assumes dm: "data_model_kept E P"
    and p0: "P (db s)"
    and run: "force_function E func s = Some (r, s')"
  shows "released E (db s) (db s') \<subseteq> func_addrs E (db s) (first_func_chunk E (db s) func)"
proof -
  let ?d0 = "db s"
  let ?orig = "first_func_chunk E ?d0 func"
  let ?S = "func_addrs E ?d0 ?orig"
  define Q where "Q d \<longleftrightarrow> P d \<and> confined E ?d0 ?S d" for d
  note D = dm[unfolded data_model_kept_def]
  note co = D[THEN conjunct1, rule_format]
  note k1 = D[THEN conjunct2, THEN conjunct1, rule_format]
  note k2 = D[THEN conjunct2, THEN conjunct2, THEN conjunct1, rule_format]
  note k3 = D[THEN conjunct2, THEN conjunct2, THEN conjunct2, THEN conjunct1, rule_format]
  note k4 = D[THEN conjunct2, THEN conjunct2, THEN conjunct2, THEN conjunct2,
              THEN conjunct1, rule_format]
  note k5 = D[THEN conjunct2, THEN conjunct2, THEN conjunct2, THEN conjunct2,
              THEN conjunct2, THEN conjunct1, rule_format]
  note k6 = D[THEN conjunct2, THEN conjunct2, THEN conjunct2, THEN conjunct2,
              THEN conjunct2, THEN conjunct2, rule_format]
  have c0: "coherent E ?d0" by (rule co[OF p0])
  have q0: "Q ?d0" unfolding Q_def using p0 confined_initial[OF c0] by simp
  have x_orig: "get_func E ?d0 ?orig \<longrightarrow> ?orig \<in> ?S"
    using coherentD(1)[OF c0] by blast
  have x_func: "get_func E ?d0 func \<longrightarrow> func \<in> ?S"
  proof
    assume g: "get_func E ?d0 func"
    from coherentD(5)[OF c0 g] have "?S = func_addrs E ?d0 func"
      by (simp add: func_addrs_def)
    with coherentD(1)[OF c0 g] show "func \<in> ?S" by simp
  qed
  have x_chunk: "get_func E ?d0 (fst c) \<longrightarrow> fst c \<in> ?S"
    if "Q dA" "c \<in> set (Chunks E dA ?orig)" for dA c
  proof -
    from that(1) have pA: "P dA" and cf: "confined E ?d0 ?S dA"
      unfolding Q_def by simp_all
    note cA = co[OF pA]
    from chunk_start_in[OF that(2) coherentD(6)[OF cA that(2)]]
    have "fst c \<in> func_addrs E dA ?orig" by (simp add: func_addrs_def)
    with confined_target[OF cf x_orig] show ?thesis by blast
  qed
  have QP: "\<And>d. Q d \<Longrightarrow> P d" by (simp add: Q_def)
  have QC: "\<And>d. Q d \<Longrightarrow> confined E ?d0 ?S d" by (simp add: Q_def)
  have QI: "\<And>d. P d \<Longrightarrow> confined E ?d0 ?S d \<Longrightarrow> Q d" by (simp add: Q_def)
  have same: "Q d'" if "Q d" "P d'" "same_functions E d d'" for d d'
    by (rule QI[OF that(2) confined_same[OF QC[OF that(1)] co[OF that(2)] that(3)]])
  have created: "Q d'" if "Q d" "P d'" "only_created E d d'" for d d'
    by (rule QI[OF that(2) confined_created[OF QC[OF that(1)] co[OF that(2)] that(3)]])
  have removed: "Q d'"
    if "Q d" "P d'" "only_removed E d x d'" "get_func E ?d0 x \<longrightarrow> x \<in> ?S" for d d' x
    by (rule QI[OF that(2) confined_removed[OF QC[OF that(1)] co[OF that(2)] that(3,4)]])
  have i1: "\<forall>d a. Q d \<longrightarrow> Q (snd (find_func_bounds E d a))"
  proof (intro allI impI)
    fix d a assume q: "Q d"
    from k1[OF QP[OF q], of a] show "Q (snd (find_func_bounds E d a))"
      by (intro same[OF q]) simp_all
  qed
  have i2: "\<forall>d a. Q d \<longrightarrow> Q (del_items E d a)"
  proof (intro allI impI)
    fix d a assume q: "Q d"
    from k2[OF QP[OF q], of a] show "Q (del_items E d a)"
      by (intro same[OF q]) simp_all
  qed
  have i3: "\<forall>d a. Q d \<longrightarrow> Q (snd (create_insn E d a))"
  proof (intro allI impI)
    fix d a assume q: "Q d"
    from k3[OF QP[OF q], of a] show "Q (snd (create_insn E d a))"
      by (intro same[OF q]) simp_all
  qed
  have i4: "\<forall>d. Q d \<longrightarrow> Q (snd (remove_fchunk E d func func))"
  proof (intro allI impI)
    fix d assume q: "Q d"
    from k4[OF QP[OF q], of func func] show "Q (snd (remove_fchunk E d func func))"
      by (intro removed[OF q _ _ x_func]) simp_all
  qed
  have add: "Q (snd (add_func E d a))" if q: "Q d" for d a
    using k5[OF QP[OF q], of a] by (intro created[OF q]) simp_all
  have del: "Q (snd (del_func E d x))" if q: "Q d" and x: "get_func E ?d0 x \<longrightarrow> x \<in> ?S" for d x
    using k6[OF QP[OF q], of x] by (intro removed[OF q _ _ x]) simp_all
  have i5: "\<forall>d. Q d \<longrightarrow> Q (snd (add_func E d func))"
    using add by blast
  have i6: "\<forall>d. Q d \<longrightarrow> Q (snd (add_func E d ?orig))"
    using add by blast
  have i7: "\<forall>d. Q d \<longrightarrow> Q (snd (del_func E d ?orig))"
    using del[OF _ x_orig] by blast
  have i8: "\<forall>dA d c. Q dA \<and> Q d \<and> c \<in> set (Chunks E dA ?orig) \<longrightarrow>
      Q (snd (del_func E d (fst c)))"
  proof (intro allI impI)
    fix dA d c assume a: "Q dA \<and> Q d \<and> c \<in> set (Chunks E dA ?orig)"
    then have "get_func E ?d0 (fst c) \<longrightarrow> fst c \<in> ?S" using x_chunk by blast
    from del[OF _ this] a show "Q (snd (del_func E d (fst c)))" by blast
  qed
  have "Q (db s')"
    using run
  proof (cases rule: force_function_cases)
    case start
    with q0 show ?thesis by simp
  next
    case (repair s1)
    from prepare_invariant[OF repair(2) q0 i1 i2 i3 i4] have "Q (db s1)" .
    from try_make_function_invariant[OF repair(3)[symmetric] this i5 i6 i7 i8]
    show ?thesis .
  qed
  then show ?thesis
    unfolding Q_def confined_def released_def by blast
qed

lemma owner_mid [simp]:
  "owner db_mid_chunk a = (if 16 \<le> a \<and> a < 32 then Some (16, [(16, 32)]) else None)"
  "owner (db_mid_chunk\<lparr>funcs := []\<rparr>) a = None"
  "owner (db_mid_chunk\<lparr>funcs := [(24, [(24, 32)])]\<rparr>) a =
     (if 24 \<le> a \<and> a < 32 then Some (24, [(24, 32)]) else None)"
  by (simp_all add: owner_def db_mid_chunk_def in_chunks_def)

lemma mid_fields [simp]:
  "creatable db_mid_chunk = [(24, 32)]" "unrecognized db_mid_chunk = []"
  "stubborn db_mid_chunk = []" "funcs db_mid_chunk = [(16, [(16, 32)])]"
  by (simp_all add: db_mid_chunk_def)

lemma mid_coherent: "mid_chunk_dbs d \<Longrightarrow> coherent mock d"
  unfolding mid_chunk_dbs_def coherent_def func_addrs_def chunk_addrs_def
  by (elim disjE) (auto simp: mock_chunks_def mock_entry_def split: if_splits)

lemma mid_find_func_bounds:
  "mid_chunk_dbs d \<Longrightarrow> snd (mock_find_func_bounds d a) = d"
  by (simp add: mock_find_func_bounds_def split: option.splits list.splits)

lemma mid_create_insn: "mid_chunk_dbs d \<Longrightarrow> snd (mock_create_insn d a) = d"
  unfolding mid_chunk_dbs_def by (auto simp: mock_create_insn_def db_mid_chunk_def)

lemma mid_remove_fchunk: "mid_chunk_dbs d \<Longrightarrow> snd (mock_remove_fchunk d f t) = d"
  unfolding mid_chunk_dbs_def
  by (auto simp: mock_remove_fchunk_def in_chunks_def)

lemma mid_add_func:
  "mid_chunk_dbs d \<Longrightarrow>
   snd (mock_add_func d a) = d \<or>
   d = db_mid_chunk\<lparr>funcs := []\<rparr> \<and>
   snd (mock_add_func d a) = db_mid_chunk\<lparr>funcs := [(24, [(24, 32)])]\<rparr>"
  unfolding mid_chunk_dbs_def
  by (auto simp: mock_add_func_def)

lemma mid_del_func:
  "mid_chunk_dbs d \<Longrightarrow>
   snd (mock_del_func d a) = d \<or>
   snd (mock_del_func d a) = db_mid_chunk\<lparr>funcs := []\<rparr> \<and>
   (\<forall>b. owner d b \<noteq> None \<longrightarrow> b \<in> func_addrs mock d a)"
  unfolding mid_chunk_dbs_def
  by (elim disjE)
     (auto simp: mock_del_func_def func_addrs_def chunk_addrs_def mock_chunks_def
           split: if_splits)

lemma same_functions_refl: "same_functions E d d"
  by (simp add: same_functions_def)

lemma only_created_refl: "only_created E d d"
  by (simp add: only_created_def)

lemma only_removed_refl: "only_removed E d x d"
  by (simp add: only_removed_def)

lemma mock_data_model_kept: "data_model_kept mock mid_chunk_dbs"
  unfolding data_model_kept_def
proof (intro conjI allI impI)
  fix d a f t assume p: "mid_chunk_dbs d"
  show "coherent mock d" by (rule mid_coherent[OF p])
  show "mid_chunk_dbs (snd (find_func_bounds mock d a))"
    "same_functions mock d (snd (find_func_bounds mock d a))"
    "mid_chunk_dbs (del_items mock d a)" "same_functions mock d (del_items mock d a)"
    "mid_chunk_dbs (snd (create_insn mock d a))"
    "same_functions mock d (snd (create_insn mock d a))"
    "mid_chunk_dbs (snd (remove_fchunk mock d f t))"
    "only_removed mock d f (snd (remove_fchunk mock d f t))"
    using p
    by (simp_all add: mid_find_func_bounds mid_create_insn mid_remove_fchunk
          same_functions_refl only_removed_refl)
  from mid_add_func[OF p, of a]
  show "mid_chunk_dbs (snd (add_func mock d a))"
    using p by (auto simp: mid_chunk_dbs_def)
  from mid_add_func[OF p, of a]
  show "only_created mock d (snd (add_func mock d a))"
    by (auto simp: only_created_refl)
       (auto simp: only_created_def func_addrs_def chunk_addrs_def mock_chunks_def
             split: if_splits)
  from mid_del_func[OF p, of a]
  show "mid_chunk_dbs (snd (del_func mock d a))"
    using p by (auto simp: mid_chunk_dbs_def)
  from mid_del_func[OF p, of a]
  show "only_removed mock d a (snd (del_func mock d a))"
    by (auto simp: only_removed_refl) (auto simp: only_removed_def)
qed

text \<open>
  C5 (as stated, refuted). On \<open>db_two_functions\<close> with the engine \<open>adopting\<close> every
  function has chunks of its own at every moment. The repair of \<open>24\<close> deletes the original
  function \<open>16\<close>, whose tail \<open>[48, 52)\<close> the engine attaches to the function \<open>64\<close>;
  \<open>add_func(24)\<close> succeeds and \<open>add_func(16)\<close> fails, so the rollback is reached. The
  snapshot lists the chunk start \<open>48\<close>, the rollback calls \<open>del_func(48)\<close>, and that
  deletes the function \<open>64\<close>, which was never part of the repair. The released addresses
  include the 32 addresses of \<open>[64, 96)\<close>; the chunk set of the original function has 20.
\<close>

theorem rollback_deletes_adopting_function_counterexample:
  "coherent adopting db_two_functions \<and>
   force_function adopting 24 (fresh db_two_functions) =
     Some (False,
       \<lparr>db = db_two_functions\<lparr>funcs := [(24, [(24, 32), (48, 52)])]\<rparr>,
        calls = [RemoveFchunk 24 24, AddFunc 24, DelFunc 16, AddFunc 24, AddFunc 16,
                 DelFunc 16, DelFunc 48, AddFunc 16]\<rparr>) \<and>
   Chunks adopting db_two_functions 16 = [(16, 32), (48, 52)] \<and>
   \<not> card (released adopting db_two_functions
             (db_two_functions\<lparr>funcs := [(24, [(24, 32), (48, 52)])]\<rparr>))
       \<le> card (chunk_addrs (Chunks adopting db_two_functions 16))"
proof -
  let ?R = "released adopting db_two_functions
              (db_two_functions\<lparr>funcs := [(24, [(24, 32), (48, 52)])]\<rparr>)"
  have g: "get_func adopting = (\<lambda>d a. owner d a \<noteq> None)" "Chunks adopting = mock_chunks"
    "first_func_chunk adopting = mock_entry"
    by (simp_all add: adopting_def mock_def)
  have co: "coherent adopting db_two_functions"
    unfolding coherent_def func_addrs_def chunk_addrs_def g
    by (auto simp: mock_chunks_def mock_entry_def owner_def db_two_functions_def in_chunks_def
             split: if_splits)
  have r: "force_function adopting 24 (fresh db_two_functions) =
     Some (False,
       \<lparr>db = db_two_functions\<lparr>funcs := [(24, [(24, 32), (48, 52)])]\<rparr>,
        calls = [RemoveFchunk 24 24, AddFunc 24, DelFunc 16, AddFunc 24, AddFunc 16,
                 DelFunc 16, DelFunc 48, AddFunc 16]\<rparr>)"
    by code_simp
  have c: "Chunks adopting db_two_functions 16 = [(16, 32), (48, 52)]"
    by code_simp
  have sub: "{64..<96} \<subseteq> ?R"
    by (auto simp: released_def g owner_def db_two_functions_def in_chunks_def)
  have "?R \<subseteq> {16..<96}"
    by (auto simp: released_def g owner_def db_two_functions_def in_chunks_def split: if_splits)
  then have "finite ?R" by (rule finite_subset) simp
  from card_mono[OF this sub] have big: "32 \<le> card ?R" by simp
  have ca: "chunk_addrs (Chunks adopting db_two_functions 16) = {16..<32} \<union> {48..<52}"
    unfolding c by (simp add: chunk_addrs_def)
  have "card ({16..<32} \<union> {48..<52::int}) \<le> card {16..<32::int} + card {48..<52::int}"
    by (rule card_Un_le)
  then have small: "card (chunk_addrs (Chunks adopting db_two_functions 16)) \<le> 20"
    unfolding ca by simp
  from co r c big small show ?thesis by simp
qed

text \<open>
  C5 (amended). On every engine that keeps the data model, including one on which the
  re-creation of the original fails: when the rollback path is reached, \<open>force_function\<close>
  returns \<open>False\<close> in the state \<open>sf\<close> that the rollback leaves (the deletions at the
  snapshot's chunk starts, then \<open>add_func(orig)\<close>), every address released by the call
  lies in the chunk set that the original function had before the call began, and so the
  released addresses are at most as many as that chunk set has.
\<close>

theorem rollback_within_original_chunks:
  assumes "data_model_kept E P"
    and "P (db s)"
    and "\<not> is_function_start E (db s) func"
    and "prepare E func s = Some s1"
    and "orig = first_func_chunk E (db s) func"
    and "orig \<noteq> BADADDR"
    and "call_add_func E func s1 = (False, s2)"
    and "call_del_func E orig s2 = (True, s3)"
    and "call_add_func E func s3 = (r3, s4)"
    and "call_add_func E orig s4 = (r4, s5)"
    and "\<not> (r3 \<and> r4 \<and>
           list_all (\<lambda>(start, end). get_func E (db s5) start) (Chunks E (db s2) orig))"
    and "sf = snd (call_add_func E orig
                (undo_damage E (Chunks E (db s2) orig) (if r3 then s5 else s4)))"
  shows "force_function E func s = Some (False, sf) \<and>
         released E (db s) (db sf) \<subseteq> chunk_addrs (Chunks E (db s) orig) \<and>
         card (released E (db s) (db sf)) \<le> card (chunk_addrs (Chunks E (db s) orig))"
proof -
  have r: "force_function E func s = Some (False, sf)"
    using assms(3-12)
    by (auto simp: force_function_unfold try_make_function_def restore_original_def Let_def)
  from released_within_original[OF assms(1,2) r] assms(5)
  have sub: "released E (db s) (db sf) \<subseteq> chunk_addrs (Chunks E (db s) orig)"
    by (simp add: func_addrs_def)
  from card_mono[OF finite_chunk_addrs sub] r sub show ?thesis by blast
qed

theorem rollback_within_original_chunks_witness:
  "mid_chunk_dbs (db (fresh db_mid_chunk)) \<and>
   force_function mock 24 (fresh db_mid_chunk) =
     Some (False,
       \<lparr>db = db_mid_chunk\<lparr>funcs := [(24, [(24, 32)])]\<rparr>,
        calls = [RemoveFchunk 24 24, AddFunc 24, DelFunc 16, AddFunc 24, AddFunc 16,
                 DelFunc 16, AddFunc 16]\<rparr>) \<and>
   card (released mock db_mid_chunk (db_mid_chunk\<lparr>funcs := [(24, [(24, 32)])]\<rparr>))
     \<le> card (chunk_addrs (Chunks mock db_mid_chunk 16))"
proof -
  let ?s1 = "\<lparr>db = db_mid_chunk, calls = [RemoveFchunk 24 24]\<rparr>"
  let ?s2 = "\<lparr>db = db_mid_chunk, calls = [RemoveFchunk 24 24, AddFunc 24]\<rparr>"
  let ?s3 = "\<lparr>db = db_mid_chunk\<lparr>funcs := []\<rparr>,
             calls = [RemoveFchunk 24 24, AddFunc 24, DelFunc 16]\<rparr>"
  let ?s4 = "\<lparr>db = db_mid_chunk\<lparr>funcs := [(24, [(24, 32)])]\<rparr>,
             calls = [RemoveFchunk 24 24, AddFunc 24, DelFunc 16, AddFunc 24]\<rparr>"
  let ?s5 = "\<lparr>db = db_mid_chunk\<lparr>funcs := [(24, [(24, 32)])]\<rparr>,
             calls = [RemoveFchunk 24 24, AddFunc 24, DelFunc 16, AddFunc 24, AddFunc 16]\<rparr>"
  let ?sf = "\<lparr>db = db_mid_chunk\<lparr>funcs := [(24, [(24, 32)])]\<rparr>,
        calls = [RemoveFchunk 24 24, AddFunc 24, DelFunc 16, AddFunc 24, AddFunc 16,
                 DelFunc 16, AddFunc 16]\<rparr>"
  have p: "mid_chunk_dbs (db (fresh db_mid_chunk))"
    by (simp add: mid_chunk_dbs_def fresh_def)
  have h1: "\<not> is_function_start mock (db (fresh db_mid_chunk)) 24" by code_simp
  have h2: "prepare mock 24 (fresh db_mid_chunk) = Some ?s1" by code_simp
  have h3: "16 = first_func_chunk mock (db (fresh db_mid_chunk)) 24" by code_simp
  have h4: "(16::int) \<noteq> BADADDR" by code_simp
  have h5: "call_add_func mock 24 ?s1 = (False, ?s2)" by code_simp
  have h6: "call_del_func mock 16 ?s2 = (True, ?s3)" by code_simp
  have h7: "call_add_func mock 24 ?s3 = (True, ?s4)" by code_simp
  have h8: "call_add_func mock 16 ?s4 = (False, ?s5)" by code_simp
  have h9: "\<not> (True \<and> False \<and>
      list_all (\<lambda>(start, end). get_func mock (db ?s5) start) (Chunks mock (db ?s2) 16))"
    by simp
  have h10: "?sf = snd (call_add_func mock 16
                (undo_damage mock (Chunks mock (db ?s2) 16) (if True then ?s5 else ?s4)))"
    by code_simp
  from rollback_within_original_chunks
         [OF mock_data_model_kept p h1 h2 h3 h4 h5 h6 h7 h8 h9 h10] p
  show ?thesis by (simp add: fresh_def)
qed

end
